theory Spec2Isabelle
  imports Complex_Main
begin

section \<open>The users table\<close>

text \<open>
  One row of the table \<open>users\<close> created by \<open>ensure_tables_exist\<close>. The three TEXT
  columns are nullable and have no default, so they are options (\<open>None\<close> is NULL). The
  other columns have a default and no handler ever writes NULL into them. INTEGER and
  BIGINT values are integers; a TIMESTAMP and Python's \<open>datetime\<close> both count
  microseconds, so an instant is the number of microseconds since the epoch.

  Of the store's refusals of a value outside the range of its column, the one that a
  request can cause is modelled: \<open>user_id\<close> is SERIAL, a 32-bit integer, and \<open>skip\<close>
  inserts the Telegram id it is given. The balances, which no handler brings near the
  end of BIGINT, are taken to stay inside their column.
\<close>

record user =
  user_id :: int
  wallet_address :: "string option"
  taps :: int
  mining_power :: int
  referral_code :: "string option"
  referred_by :: "string option"
  referral_count :: int
  tap_timestamp :: int
  joined_telegram :: bool
  followed_twitter :: bool
  token_balance :: int

text \<open>The table is the list of its rows, in insertion order.\<close>

type_synonym users = "user list"

definition MAX_TAPS_PER_DAY :: int where
  "MAX_TAPS_PER_DAY = 10"

definition TAP_REWARD :: int where
  "TAP_REWARD = 1000"

definition INITIAL_MINING_POWER :: int where
  "INITIAL_MINING_POWER = 100"

definition BONUS_TOKENS :: int where
  "BONUS_TOKENS = 500000"

text \<open>\<open>timedelta(days=1)\<close>, in microseconds.\<close>

definition one_day :: int where
  "one_day = 86400000000"

subsection \<open>Statements\<close>

text \<open>\<open>SELECT ... FROM users WHERE user_id = %s\<close> followed by \<open>fetchone()\<close>.\<close>

definition fetchone :: "users \<Rightarrow> int \<Rightarrow> user option" where
  "fetchone db uid = find (\<lambda>r. user_id r = uid) db"

text \<open>\<open>UPDATE users SET ... WHERE ...\<close>: every row that satisfies the condition is rewritten.\<close>

definition update_where :: "(user \<Rightarrow> bool) \<Rightarrow> (user \<Rightarrow> user) \<Rightarrow> users \<Rightarrow> users" where
  "update_where c f db = map (\<lambda>r. if c r then f r else r) db"

text \<open>
  The row that \<open>INSERT INTO users (user_id, token_balance) VALUES (%s, %s)\<close> adds: every
  other column takes its default, \<open>tap_timestamp\<close> the clock of the store.
\<close>

definition inserted_row :: "int \<Rightarrow> int \<Rightarrow> int \<Rightarrow> user" where
  "inserted_row uid balance now =
     \<lparr>user_id = uid, wallet_address = None, taps = 0, mining_power = 100,
      referral_code = None, referred_by = None, referral_count = 0,
      tap_timestamp = now, joined_telegram = False, followed_twitter = False,
      token_balance = balance\<rparr>"

section \<open>Binary floating point\<close>

text \<open>
  \<open>REFERRAL_BONUS_PERCENTAGE = 0.10\<close> is a Python float, so the referral bonus
  \<open>new_tokens * REFERRAL_BONUS_PERCENTAGE\<close> is computed in binary64. A finite binary64
  value is the pair \<open>(m, e)\<close> that stands for \<open>m * 2 ^ e\<close>. The range of the exponent
  is not modelled: the values that occur are far inside it.
\<close>

type_synonym float64 = "int \<times> int"

text \<open>Python's \<open>int.bit_length\<close>, on a magnitude.\<close>

function bit_length :: "int \<Rightarrow> nat" where
  "bit_length n = (if n \<le> 0 then 0 else Suc (bit_length (n div 2)))"
  by pat_completeness auto
termination
  by (relation "measure nat") auto

declare bit_length.simps [simp del]

text \<open>Rounding an exact result to a significand of 53 bits, to nearest, ties to even.\<close>

definition round53 :: "float64 \<Rightarrow> float64" where
  "round53 f =
     (case f of (m, e) \<Rightarrow>
        let l = bit_length \<bar>m\<bar> in
        if l \<le> 53 then (m, e)
        else
          let s = l - 53;
              q = \<bar>m\<bar> div 2 ^ s;
              r = \<bar>m\<bar> mod 2 ^ s;
              h = 2 ^ (s - 1);
              q' = (if r < h \<or> (r = h \<and> even q) then q else q + 1)
          in (sgn m * q', e + int s))"

text \<open>Converting an \<open>int\<close> operand to float, and the product of two floats.\<close>

definition float_of_int :: "int \<Rightarrow> float64" where
  "float_of_int n = round53 (n, 0)"

definition float_mul :: "float64 \<Rightarrow> float64 \<Rightarrow> float64" where
  "float_mul a b = (case a of (m1, e1) \<Rightarrow> case b of (m2, e2) \<Rightarrow> round53 (m1 * m2, e1 + e2))"

text \<open>The binary64 value nearest to one tenth: \<open>0x1.999999999999ap-4\<close>.\<close>

definition REFERRAL_BONUS_PERCENTAGE :: float64 where
  "REFERRAL_BONUS_PERCENTAGE = (3602879701896397, - 55)"

text \<open>
  \<open>token_balance + %s\<close> with a float parameter, stored into the BIGINT column: the sum
  is a NUMERIC, and the assignment rounds it to the nearest integer, a half away from
  zero. The parameter reaches the store as the decimal literal \<open>repr\<close> gives, which for a
  float that is an integer below \<open>10 ^ 16\<close> is that integer.
\<close>

definition bigint_plus_float :: "int \<Rightarrow> float64 \<Rightarrow> int" where
  "bigint_plus_float b f =
     (case f of (m, e) \<Rightarrow>
        if 0 \<le> e then b + m * 2 ^ nat e
        else
          let d = 2 ^ nat (- e); n = b * d + m
          in if 0 \<le> n then (2 * n + d) div (2 * d) else - ((2 * (- n) + d) div (2 * d)))"

section \<open>The handlers\<close>

datatype reason = DailyLimitReached | NotRegistered

text \<open>
  What a handler answers. The constructors stand for the texts of \<open>reply_text\<close>:
  \<open>Tapped n\<close> for "Tapped! You received n tokens.", \<open>TapRejected DailyLimitReached\<close> for
  "You have reached the maximum taps for today ...", \<open>TapRejected NotRegistered\<close> and
  \<open>DashboardNotRegistered\<close> for "You are not registered yet ...", \<open>Skipped\<close> for "You
  have skipped wallet connection ...", \<open>WalletBound\<close> for "Wallet connected
  successfully!", \<open>InvalidAddress\<close> for "Invalid wallet address ...", \<open>DuplicateWallet\<close>
  for the answer to the integrity error, and \<open>DashboardSnapshot\<close> for the dashboard
  with the six columns it shows.
\<close>

datatype reply =
    Tapped int
  | TapRejected reason
  | Skipped
  | WalletBound
  | InvalidAddress
  | DuplicateWallet
  | DashboardSnapshot "string option" int int int bool bool
  | DashboardNotRegistered

text \<open>
  The exception of the store that ends a handler without a reply: a value outside the range
  of an INTEGER column.
\<close>

datatype error = NumericValueOutOfRange

definition fits_integer :: "int \<Rightarrow> bool" where
  "fits_integer n \<longleftrightarrow> - (2 ^ 31) \<le> n \<and> n < 2 ^ 31"

text \<open>
  \<open>skip\<close>: \<open>INSERT ... ON CONFLICT (user_id) DO NOTHING\<close>. A handler takes the table
  and returns its reply with the table as committed; the handlers run one at a time, in
  the order in which the dispatcher calls them. The INSERT converts the id to the type of
  the column before it looks for a conflict; when the id does not fit, the store raises,
  the handler does not catch it, and nothing is committed.
\<close>

definition skip :: "users \<Rightarrow> int \<Rightarrow> int \<Rightarrow> (error + reply) \<times> users" where
  "skip db uid now =
     (if \<not> fits_integer uid then (Inl NumericValueOutOfRange, db)
      else if \<exists>r \<in> set db. user_id r = uid then (Inr Skipped, db)
      else (Inr Skipped, db @ [inserted_row uid BONUS_TOKENS now]))"

text \<open>
  \<open>handle_wallet_address\<close>. \<open>Web3.isAddress\<close> belongs to a library and is a parameter.
  \<open>user_id\<close> is the primary key, so the UPDATE rewrites at most one row; the UNIQUE
  constraint on \<open>wallet_address\<close> refuses it when another row holds the address, which
  raises the \<open>IntegrityError\<close> that the handler answers after a rollback.
\<close>

definition wallet_conflict :: "users \<Rightarrow> int \<Rightarrow> string \<Rightarrow> bool" where
  "wallet_conflict db uid a \<longleftrightarrow>
     (\<exists>r \<in> set db. user_id r = uid) \<and>
     (\<exists>r \<in> set db. user_id r \<noteq> uid \<and> wallet_address r = Some a)"

definition handle_wallet_address ::
    "(string \<Rightarrow> bool) \<Rightarrow> users \<Rightarrow> int \<Rightarrow> string \<Rightarrow> reply \<times> users" where
  "handle_wallet_address isAddress db uid a =
     (if \<not> isAddress a then (InvalidAddress, db)
      else if wallet_conflict db uid a then (DuplicateWallet, db)
      else (WalletBound,
            update_where (\<lambda>r. user_id r = uid) (\<lambda>r. r\<lparr>wallet_address := Some a\<rparr>) db))"

text \<open>\<open>view_dashboard\<close> reads one row and writes nothing.\<close>

definition view_dashboard :: "users \<Rightarrow> int \<Rightarrow> reply \<times> users" where
  "view_dashboard db uid =
     (case fetchone db uid of
        Some u \<Rightarrow>
          (DashboardSnapshot (wallet_address u) (mining_power u) (token_balance u)
             (referral_count u) (joined_telegram u) (followed_twitter u), db)
      | None \<Rightarrow> (DashboardNotRegistered, db))"

text \<open>
  \<open>handle_tap\<close>, in the order of the source: the test of eligibility, the first UPDATE
  with its commit (\<open>tap_commit\<close>), then the second UPDATE with its commit
  (\<open>referral_commit\<close>) when \<open>referred_by\<close> is neither NULL nor the empty string.
\<close>

definition eligible :: "user \<Rightarrow> int \<Rightarrow> bool" where
  "eligible u now \<longleftrightarrow> taps u < MAX_TAPS_PER_DAY \<or> now - tap_timestamp u > one_day"

definition new_taps :: "user \<Rightarrow> int" where
  "new_taps u = (if taps u < MAX_TAPS_PER_DAY then taps u + 1 else 1)"

definition new_tokens :: "user \<Rightarrow> int" where
  "new_tokens u = TAP_REWARD * mining_power u"

definition tap_commit :: "users \<Rightarrow> int \<Rightarrow> user \<Rightarrow> int \<Rightarrow> users" where
  "tap_commit db uid u now =
     update_where (\<lambda>r. user_id r = uid)
       (\<lambda>r. r\<lparr>taps := new_taps u, tap_timestamp := now,
              token_balance := token_balance r + new_tokens u\<rparr>) db"

definition referrer_bonus :: "int \<Rightarrow> float64" where
  "referrer_bonus tokens = float_mul (float_of_int tokens) REFERRAL_BONUS_PERCENTAGE"

definition referral_commit :: "users \<Rightarrow> string \<Rightarrow> float64 \<Rightarrow> users" where
  "referral_commit db code bonus =
     update_where (\<lambda>r. referral_code r = Some code)
       (\<lambda>r. r\<lparr>token_balance := bigint_plus_float (token_balance r) bonus\<rparr>) db"

text \<open>
  What \<open>handle_tap\<close> does once it has left the block of \<open>db_lock\<close> with the row it
  selected there, on the table as it is by then: the reply, and the tables it commits, in
  the order of its calls of \<open>conn.commit()\<close>.
\<close>

definition tap_after_select ::
    "users \<Rightarrow> int \<Rightarrow> int \<Rightarrow> user option \<Rightarrow> reply \<times> users list" where
  "tap_after_select db uid now user =
     (case user of
        Some u \<Rightarrow>
          if eligible u now then
            let db1 = tap_commit db uid u now in
            (case fetchone db1 uid of
               Some r \<Rightarrow>
                 (case referred_by r of
                    Some code \<Rightarrow>
                      if code \<noteq> [] then
                        (Tapped (new_tokens u),
                         [db1, referral_commit db1 code (referrer_bonus (new_tokens u))])
                      else (Tapped (new_tokens u), [db1])
                  | None \<Rightarrow> (Tapped (new_tokens u), [db1]))
             | None \<Rightarrow> (Tapped (new_tokens u), [db1]))
          else (TapRejected DailyLimitReached, [])
      | None \<Rightarrow> (TapRejected NotRegistered, []))"

text \<open>
  The whole handler, with nothing else running between its SELECT and the rest: the reply
  and the table as last committed.
\<close>

definition handle_tap :: "users \<Rightarrow> int \<Rightarrow> int \<Rightarrow> reply \<times> users" where
  "handle_tap db uid now =
     (case tap_after_select db uid now (fetchone db uid) of
        (a, commits) \<Rightarrow> (a, last (db # commits)))"

text \<open>The callbacks and the text messages that \<open>main\<close> routes to the handlers.\<close>

datatype request =
    SkipRequest int
  | WalletRequest int string
  | DashboardRequest int
  | TapRequest int

fun dispatch ::
    "(string \<Rightarrow> bool) \<Rightarrow> users \<Rightarrow> int \<Rightarrow> request \<Rightarrow> (error + reply) \<times> users" where
  "dispatch isAddress db now (SkipRequest uid) = skip db uid now"
| "dispatch isAddress db now (WalletRequest uid a) =
     (case handle_wallet_address isAddress db uid a of (r, db') \<Rightarrow> (Inr r, db'))"
| "dispatch isAddress db now (DashboardRequest uid) =
     (case view_dashboard db uid of (r, db') \<Rightarrow> (Inr r, db'))"
| "dispatch isAddress db now (TapRequest uid) =
     (case handle_tap db uid now of (r, db') \<Rightarrow> (Inr r, db'))"

text \<open>A run of taps by one user, at the given instants.\<close>

fun tap_run :: "users \<Rightarrow> int \<Rightarrow> int list \<Rightarrow> reply list \<times> users" where
  "tap_run db uid [] = ([], db)"
| "tap_run db uid (t # ts) =
     (case handle_tap db uid t of
        (a, db1) \<Rightarrow> (case tap_run db1 uid ts of (as, db2) \<Rightarrow> (a # as, db2)))"

text \<open>
  A run of requests, each with the instant at which it is handled. After an exception of
  the store that no handler catches, the transaction of the one shared connection stays
  aborted: no handler rolls it back (\<open>handle_wallet_address\<close> does so only for the
  \<open>IntegrityError\<close> it catches), every later statement is refused, and the table stays as
  it is.
\<close>

fun run :: "(string \<Rightarrow> bool) \<Rightarrow> users \<Rightarrow> (int \<times> request) list \<Rightarrow> users" where
  "run isAddress db [] = db"
| "run isAddress db ((now, q) # qs) =
     (case dispatch isAddress db now q of
        (Inl e, db') \<Rightarrow> db'
      | (Inr a, db') \<Rightarrow> run isAddress db' qs)"

text \<open>
  Taps handled by threads. \<open>db_lock\<close> is held for the SELECT of \<open>handle_tap\<close> only, so a
  thread is waiting for the lock, or has selected its row and left the block, or has
  finished with a reply; a step of a thread is the block of the lock, or all that follows
  it. A thread carries the user and the instant it reads from the clock once it has left
  the block. A schedule names the thread that takes the next step.
\<close>

datatype tap_thread =
    Waiting int int
  | Selected int int "user option"
  | Finished reply

fun thread_step :: "users \<Rightarrow> tap_thread \<Rightarrow> users \<times> tap_thread" where
  "thread_step db (Waiting uid now) = (db, Selected uid now (fetchone db uid))"
| "thread_step db (Selected uid now user) =
     (case tap_after_select db uid now user of
        (a, commits) \<Rightarrow> (last (db # commits), Finished a))"
| "thread_step db (Finished a) = (db, Finished a)"

fun interleave :: "users \<Rightarrow> tap_thread list \<Rightarrow> nat list \<Rightarrow> users \<times> tap_thread list" where
  "interleave db ts [] = (db, ts)"
| "interleave db ts (k # ks) =
     (if k < length ts then
        (case thread_step db (ts ! k) of (db', t) \<Rightarrow> interleave db' (ts[k := t]) ks)
      else interleave db ts ks)"

section \<open>Rows and statements\<close>

lemma fetchone_Some:
  "fetchone db uid = Some u \<Longrightarrow> u \<in> set db \<and> user_id u = uid"
  unfolding fetchone_def by (auto simp: find_Some_iff)

lemma fetchone_None:
  "fetchone db uid = None \<longleftrightarrow> (\<forall>r \<in> set db. user_id r \<noteq> uid)"
  unfolding fetchone_def by (auto simp: find_None_iff)

lemma fetchone_update_where:
  "(\<And>r. user_id (f r) = user_id r) \<Longrightarrow>
   fetchone (update_where c f db) uid =
     map_option (\<lambda>r. if c r then f r else r) (fetchone db uid)"
  unfolding fetchone_def update_where_def
  by (induction db) auto

lemma length_update_where: "length (update_where c f db) = length db"
  by (simp add: update_where_def)

lemma nth_update_where:
  "i < length db \<Longrightarrow>
   update_where c f db ! i = (if c (db ! i) then f (db ! i) else db ! i)"
  by (simp add: update_where_def)

section \<open>The three ways a tap ends\<close>

lemma fetchone_tap_commit:
  "fetchone db uid = Some u \<Longrightarrow>
   fetchone (tap_commit db uid u now) uid =
     Some (u\<lparr>taps := new_taps u, tap_timestamp := now,
              token_balance := token_balance u + new_tokens u\<rparr>)"
  unfolding tap_commit_def
  by (subst fetchone_update_where) (auto dest: fetchone_Some)

lemma handle_tap_unregistered:
  "fetchone db uid = None \<Longrightarrow> handle_tap db uid now = (TapRejected NotRegistered, db)"
  by (simp add: handle_tap_def tap_after_select_def)

lemma handle_tap_ineligible:
  "fetchone db uid = Some u \<Longrightarrow> \<not> eligible u now \<Longrightarrow>
   handle_tap db uid now = (TapRejected DailyLimitReached, db)"
  by (simp add: handle_tap_def tap_after_select_def)

lemma handle_tap_eligible:
  "fetchone db uid = Some u \<Longrightarrow> eligible u now \<Longrightarrow>
   handle_tap db uid now =
     (Tapped (new_tokens u),
      case referred_by u of
        None \<Rightarrow> tap_commit db uid u now
      | Some code \<Rightarrow>
          if code \<noteq> [] then
            referral_commit (tap_commit db uid u now) code (referrer_bonus (new_tokens u))
          else tap_commit db uid u now)"
  by (simp add: handle_tap_def tap_after_select_def fetchone_tap_commit Let_def
      split: option.splits)

section \<open>Eligibility\<close>

lemma tapped_row:
  assumes "fetchone db uid = Some u" and "eligible u now"
  shows "\<exists>u'. fetchone (snd (handle_tap db uid now)) uid = Some u' \<and>
           tap_timestamp u' = now \<and> taps u' = new_taps u \<and>
           (referred_by u = None \<or> referred_by u = Some [] \<or>
            referral_code u \<noteq> referred_by u \<longrightarrow>
              token_balance u' = token_balance u + new_tokens u)"
proof -
  have own: "fetchone (referral_commit (tap_commit db uid u now) code bonus) uid =
      Some (if referral_code u = Some code
            then u\<lparr>taps := new_taps u, tap_timestamp := now,
                   token_balance :=
                     bigint_plus_float (token_balance u + new_tokens u) bonus\<rparr>
            else u\<lparr>taps := new_taps u, tap_timestamp := now,
                   token_balance := token_balance u + new_tokens u\<rparr>)" for code bonus
    unfolding referral_commit_def
    by (subst fetchone_update_where) (simp_all add: fetchone_tap_commit [OF assms(1)])
  show ?thesis
    by (cases "referred_by u")
      (auto simp: handle_tap_eligible [OF assms] fetchone_tap_commit [OF assms(1)] own)
qed

text \<open>
  C1. For a registered account a tap succeeds exactly when \<open>taps < MAX_TAPS_PER_DAY\<close> or
  more than 24 hours have passed since \<open>tap_timestamp\<close>. When it succeeds the answer
  carries the reward \<open>TAP_REWARD * mining_power\<close> and the row of the account is written:
  \<open>tap_timestamp\<close> is the current instant, \<open>taps\<close> has been counted, and the balance
  has grown by the reward (by the reward alone unless the account is its own referrer).
  When neither condition holds the answer is the rejection for the daily limit and the
  table is as it was.
\<close>

theorem tap_succeeds_iff_eligible:
  assumes "fetchone db uid = Some u"
  shows "((\<exists>n. fst (handle_tap db uid now) = Tapped n) \<longleftrightarrow>
            (taps u < MAX_TAPS_PER_DAY \<or> now - tap_timestamp u > one_day)) \<and>
         (taps u < MAX_TAPS_PER_DAY \<or> now - tap_timestamp u > one_day \<longrightarrow>
            fst (handle_tap db uid now) = Tapped (TAP_REWARD * mining_power u) \<and>
            (\<exists>u'. fetchone (snd (handle_tap db uid now)) uid = Some u' \<and>
                 tap_timestamp u' = now \<and>
                 taps u' = (if taps u < MAX_TAPS_PER_DAY then taps u + 1 else 1) \<and>
                 (referred_by u = None \<or> referred_by u = Some [] \<or>
                  referral_code u \<noteq> referred_by u \<longrightarrow>
                    token_balance u' = token_balance u + TAP_REWARD * mining_power u))) \<and>
         (\<not> (taps u < MAX_TAPS_PER_DAY \<or> now - tap_timestamp u > one_day) \<longrightarrow>
            handle_tap db uid now = (TapRejected DailyLimitReached, db))"
proof (cases "eligible u now")
  case True
  from tapped_row [OF assms True] handle_tap_eligible [OF assms True] True
  show ?thesis
    by (simp add: eligible_def new_taps_def new_tokens_def)
next
  case False
  with assms show ?thesis
    by (simp add: handle_tap_ineligible) (simp add: eligible_def)
qed

theorem tap_succeeds_iff_eligible_witness:
  "fetchone [(inserted_row 7 500000 0)\<lparr>taps := 10\<rparr>] 7 =
     Some ((inserted_row 7 500000 0)\<lparr>taps := 10\<rparr>) \<and>
   handle_tap [(inserted_row 7 500000 0)\<lparr>taps := 10\<rparr>] 7 86400000000 =
     (TapRejected DailyLimitReached, [(inserted_row 7 500000 0)\<lparr>taps := 10\<rparr>]) \<and>
   fst (handle_tap [(inserted_row 7 500000 0)\<lparr>taps := 10\<rparr>] 7 86400000001) =
     Tapped (TAP_REWARD * mining_power ((inserted_row 7 500000 0)\<lparr>taps := 10\<rparr>)) \<and>
   (\<exists>u'. fetchone (snd (handle_tap [(inserted_row 7 500000 0)\<lparr>taps := 10\<rparr>] 7 86400000001))
           7 = Some u' \<and>
         tap_timestamp u' = 86400000001 \<and> taps u' = 1 \<and> token_balance u' = 600000)"
proof -
  let ?u = "(inserted_row 7 500000 0)\<lparr>taps := 10\<rparr>"
  have h: "fetchone [?u] 7 = Some ?u"
    by (simp add: fetchone_def inserted_row_def)
  have late: "taps ?u < MAX_TAPS_PER_DAY \<or> 86400000001 - tap_timestamp ?u > one_day"
    by (simp add: inserted_row_def one_day_def)
  have early: "\<not> (taps ?u < MAX_TAPS_PER_DAY \<or> 86400000000 - tap_timestamp ?u > one_day)"
    by (simp add: inserted_row_def one_day_def MAX_TAPS_PER_DAY_def)
  have own: "referred_by ?u = None"
    by (simp add: inserted_row_def)
  have vals: "\<not> taps ?u < MAX_TAPS_PER_DAY"
    "token_balance ?u + TAP_REWARD * mining_power ?u = 600000"
    by (simp_all add: inserted_row_def MAX_TAPS_PER_DAY_def TAP_REWARD_def)
  from tap_succeeds_iff_eligible [OF h, of 86400000000] early
  have a: "handle_tap [?u] 7 86400000000 = (TapRejected DailyLimitReached, [?u])"
    by blast
  from tap_succeeds_iff_eligible [OF h, of 86400000001] late own
  have b: "fst (handle_tap [?u] 7 86400000001) = Tapped (TAP_REWARD * mining_power ?u)"
    and "\<exists>u'. fetchone (snd (handle_tap [?u] 7 86400000001)) 7 = Some u' \<and>
           tap_timestamp u' = 86400000001 \<and>
           taps u' = (if taps ?u < MAX_TAPS_PER_DAY then taps ?u + 1 else 1) \<and>
           token_balance u' = token_balance ?u + TAP_REWARD * mining_power ?u"
    by blast+
  then have c: "\<exists>u'. fetchone (snd (handle_tap [?u] 7 86400000001)) 7 = Some u' \<and>
      tap_timestamp u' = 86400000001 \<and> taps u' = 1 \<and> token_balance u' = 600000"
    unfolding vals(2) using vals(1) by (simp only: if_False)
  from h a b c show ?thesis
    by blast
qed

section \<open>Rejected taps\<close>

text \<open>
  C4. A tap by a user without an account is answered \<open>TapRejected NotRegistered\<close>, a tap
  that is not eligible \<open>TapRejected DailyLimitReached\<close>; in both cases the table comes
  back as it was, so no column of any account has changed.
\<close>

theorem rejected_tap_changes_nothing:
  "(fetchone db uid = None \<longrightarrow>
      handle_tap db uid now = (TapRejected NotRegistered, db)) \<and>
   (\<forall>u. fetchone db uid = Some u \<and>
        \<not> (taps u < MAX_TAPS_PER_DAY \<or> now - tap_timestamp u > one_day) \<longrightarrow>
      handle_tap db uid now = (TapRejected DailyLimitReached, db))"
  using handle_tap_unregistered [of db uid now] handle_tap_ineligible [of db uid _ now]
  by (auto simp: eligible_def)

theorem rejected_tap_changes_nothing_witness:
  "fetchone [(inserted_row 7 500000 0)\<lparr>taps := 10\<rparr>] 8 = None \<and>
   handle_tap [(inserted_row 7 500000 0)\<lparr>taps := 10\<rparr>] 8 5 =
     (TapRejected NotRegistered, [(inserted_row 7 500000 0)\<lparr>taps := 10\<rparr>]) \<and>
   fetchone [(inserted_row 7 500000 0)\<lparr>taps := 10\<rparr>] 7 =
     Some ((inserted_row 7 500000 0)\<lparr>taps := 10\<rparr>) \<and>
   handle_tap [(inserted_row 7 500000 0)\<lparr>taps := 10\<rparr>] 7 5 =
     (TapRejected DailyLimitReached, [(inserted_row 7 500000 0)\<lparr>taps := 10\<rparr>])"
proof -
  let ?u = "(inserted_row 7 500000 0)\<lparr>taps := 10\<rparr>"
  have n: "fetchone [?u] 8 = None"
    by (simp add: fetchone_def inserted_row_def)
  have h: "fetchone [?u] 7 = Some ?u"
    by (simp add: fetchone_def inserted_row_def)
  have early: "\<not> (taps ?u < MAX_TAPS_PER_DAY \<or> 5 - tap_timestamp ?u > one_day)"
    by (simp add: inserted_row_def one_day_def MAX_TAPS_PER_DAY_def)
  from rejected_tap_changes_nothing [of "[?u]" 8 5]
    rejected_tap_changes_nothing [of "[?u]" 7 5] n h early
  show ?thesis by blast
qed

section \<open>Registration\<close>

lemma skip_in_range:
  assumes "fits_integer uid"
  shows "(fetchone db uid = None \<longrightarrow>
      (\<exists>r. skip db uid now = (Inr Skipped, db @ [r]) \<and> user_id r = uid \<and>
           token_balance r = BONUS_TOKENS \<and> BONUS_TOKENS = 500000 \<and>
           mining_power r = INITIAL_MINING_POWER \<and> INITIAL_MINING_POWER = 100 \<and>
           wallet_address r = None)) \<and>
   (fetchone db uid \<noteq> None \<longrightarrow> skip db uid now = (Inr Skipped, db)) \<and>
   skip (snd (skip db uid now)) uid later = (Inr Skipped, snd (skip db uid now))"
proof -
  have a: "fetchone db uid = None \<Longrightarrow>
      skip db uid now = (Inr Skipped, db @ [inserted_row uid BONUS_TOKENS now])"
    using assms by (simp add: skip_def fetchone_None)
  have b: "fetchone db uid \<noteq> None \<Longrightarrow> skip db uid t = (Inr Skipped, db)" for db t
    using assms by (auto simp: skip_def fetchone_None)
  have c: "fetchone (snd (skip db uid now)) uid \<noteq> None"
    using assms by (auto simp: skip_def fetchone_None inserted_row_def)
  show ?thesis
    using a b [of db now] b [OF c, of later]
    by (auto simp: inserted_row_def BONUS_TOKENS_def INITIAL_MINING_POWER_def)
qed

text \<open>
  C6. \<open>skip\<close> registers a user whose id fits the 32-bit column \<open>user_id\<close>, once (lemma
  \<open>skip_in_range\<close>). A Telegram id from \<open>2 ^ 31\<close> on is refused by the store: for the
  user \<open>5000000000\<close>, who has no account, the INSERT raises, the handler does not catch
  the exception, and no account is created, while the user \<open>2147483647\<close> gets the row
  with the bonus.
\<close>

theorem skip_refuses_large_telegram_id:
  "fetchone [] 5000000000 = None \<and>
   skip [] 5000000000 0 = (Inl NumericValueOutOfRange, []) \<and>
   skip [] 2147483647 0 = (Inr Skipped, [inserted_row 2147483647 500000 0])"
  by (simp add: fetchone_def skip_def fits_integer_def BONUS_TOKENS_def)

section \<open>What a successful tap writes\<close>

lemma tap_commit_nth:
  "i < length db \<Longrightarrow>
   tap_commit db uid u now ! i =
     (if user_id (db ! i) = uid
      then (db ! i)\<lparr>taps := new_taps u, tap_timestamp := now,
                      token_balance := token_balance (db ! i) + new_tokens u\<rparr>
      else db ! i)"
  by (simp add: tap_commit_def nth_update_where)

lemma referral_commit_nth:
  "i < length db \<Longrightarrow>
   referral_commit db code bonus ! i =
     (if referral_code (db ! i) = Some code
      then (db ! i)\<lparr>token_balance := bigint_plus_float (token_balance (db ! i)) bonus\<rparr>
      else db ! i)"
  by (simp add: referral_commit_def nth_update_where)

lemma length_tap_commit: "length (tap_commit db uid u now) = length db"
  by (simp add: tap_commit_def length_update_where)

lemma length_referral_commit: "length (referral_commit db code bonus) = length db"
  by (simp add: referral_commit_def length_update_where)

lemma handle_tap_Tapped:
  assumes "handle_tap db uid now = (Tapped n, db')"
  obtains u where "fetchone db uid = Some u" and "eligible u now" and "n = new_tokens u"
proof (cases "fetchone db uid")
  case None
  with assms show ?thesis by (simp add: handle_tap_unregistered)
next
  case (Some u)
  show ?thesis
  proof (cases "eligible u now")
    case True
    with Some assms that show ?thesis by (simp add: handle_tap_eligible)
  next
    case False
    with Some assms show ?thesis by (simp add: handle_tap_ineligible)
  qed
qed

text \<open>
  C10. A successful tap keeps the number of rows and, in every row, the columns
  \<open>user_id\<close>, \<open>mining_power\<close>, \<open>wallet_address\<close>, \<open>referral_code\<close>, \<open>referred_by\<close>,
  \<open>referral_count\<close>, \<open>joined_telegram\<close> and \<open>followed_twitter\<close>. Outside the row of the
  tapping user \<open>taps\<close> and \<open>tap_timestamp\<close> are kept as well, and a row that belongs neither
  to the tapping user nor to the referrer named by \<open>referred_by\<close> is not changed at all.
\<close>

theorem successful_tap_frame:
  assumes "fetchone db uid = Some u"
    and "handle_tap db uid now = (Tapped n, db')"
  shows "length db' = length db \<and>
    (\<forall>i < length db.
       user_id (db' ! i) = user_id (db ! i) \<and>
       mining_power (db' ! i) = mining_power (db ! i) \<and>
       wallet_address (db' ! i) = wallet_address (db ! i) \<and>
       referral_code (db' ! i) = referral_code (db ! i) \<and>
       referred_by (db' ! i) = referred_by (db ! i) \<and>
       referral_count (db' ! i) = referral_count (db ! i) \<and>
       joined_telegram (db' ! i) = joined_telegram (db ! i) \<and>
       followed_twitter (db' ! i) = followed_twitter (db ! i) \<and>
       (user_id (db ! i) \<noteq> uid \<longrightarrow>
          taps (db' ! i) = taps (db ! i) \<and> tap_timestamp (db' ! i) = tap_timestamp (db ! i)) \<and>
       (user_id (db ! i) \<noteq> uid \<and>
        (referral_code (db ! i) = None \<or> referral_code (db ! i) \<noteq> referred_by u) \<longrightarrow>
          db' ! i = db ! i))"
proof -
  from assms(2) obtain v where "fetchone db uid = Some v" and el: "eligible v now"
    by (rule handle_tap_Tapped)
  with assms(1) have "eligible u now" by simp
  from handle_tap_eligible [OF assms(1) this] assms(2)
  have db': "db' = (case referred_by u of
        None \<Rightarrow> tap_commit db uid u now
      | Some code \<Rightarrow>
          if code \<noteq> [] then
            referral_commit (tap_commit db uid u now) code (referrer_bonus (new_tokens u))
          else tap_commit db uid u now)"
    by simp
  show ?thesis
    unfolding db'
    by (auto simp: tap_commit_nth referral_commit_nth length_tap_commit
        length_referral_commit split: option.splits)
qed

theorem successful_tap_frame_witness:
  "fetchone
     [(inserted_row 1 0 0)\<lparr>referral_code := Some ''a''\<rparr>,
      (inserted_row 2 0 0)\<lparr>referred_by := Some ''a''\<rparr>,
      inserted_row 3 0 0] 2 = Some ((inserted_row 2 0 0)\<lparr>referred_by := Some ''a''\<rparr>) \<and>
   handle_tap
     [(inserted_row 1 0 0)\<lparr>referral_code := Some ''a''\<rparr>,
      (inserted_row 2 0 0)\<lparr>referred_by := Some ''a''\<rparr>,
      inserted_row 3 0 0] 2 5 =
     (Tapped 100000,
      [(inserted_row 1 0 0)\<lparr>referral_code := Some ''a'', token_balance := 10000\<rparr>,
       (inserted_row 2 0 0)\<lparr>referred_by := Some ''a'', taps := 1, tap_timestamp := 5,
          token_balance := 100000\<rparr>,
       inserted_row 3 0 0]) \<and>
   length
     [(inserted_row 1 0 0)\<lparr>referral_code := Some ''a'', token_balance := 10000\<rparr>,
      (inserted_row 2 0 0)\<lparr>referred_by := Some ''a'', taps := 1, tap_timestamp := 5,
         token_balance := 100000\<rparr>,
      inserted_row 3 0 0] = length
     [(inserted_row 1 0 0)\<lparr>referral_code := Some ''a''\<rparr>,
      (inserted_row 2 0 0)\<lparr>referred_by := Some ''a''\<rparr>,
      inserted_row 3 0 0]"
proof -
  let ?db = "[(inserted_row 1 0 0)\<lparr>referral_code := Some ''a''\<rparr>,
      (inserted_row 2 0 0)\<lparr>referred_by := Some ''a''\<rparr>,
      inserted_row 3 0 0]"
  let ?db' = "[(inserted_row 1 0 0)\<lparr>referral_code := Some ''a'', token_balance := 10000\<rparr>,
       (inserted_row 2 0 0)\<lparr>referred_by := Some ''a'', taps := 1, tap_timestamp := 5,
          token_balance := 100000\<rparr>,
       inserted_row 3 0 0]"
  have h: "fetchone ?db 2 = Some ((inserted_row 2 0 0)\<lparr>referred_by := Some ''a''\<rparr>)"
    by (simp add: fetchone_def inserted_row_def)
  have t: "handle_tap ?db 2 5 = (Tapped 100000, ?db')"
    by code_simp
  from successful_tap_frame [OF h t] h t show ?thesis
    by blast
qed

section \<open>The reward of a tap\<close>

lemma fetchone_referral_commit:
  "fetchone (referral_commit db code bonus) uid =
     map_option
       (\<lambda>r. if referral_code r = Some code
            then r\<lparr>token_balance := bigint_plus_float (token_balance r) bonus\<rparr> else r)
       (fetchone db uid)"
  unfolding referral_commit_def by (rule fetchone_update_where) simp

lemma tapped_own_row:
  assumes "fetchone db uid = Some u"
    and "handle_tap db uid now = (Tapped n, db')"
  shows "\<exists>u'. fetchone db' uid = Some u' \<and> tap_timestamp u' = now \<and>
           mining_power u' = mining_power u"
proof -
  from assms(2) obtain v where "fetchone db uid = Some v" and "eligible v now"
    by (rule handle_tap_Tapped)
  with assms(1) have "eligible u now" by simp
  from handle_tap_eligible [OF assms(1) this] assms(2) show ?thesis
    by (auto simp: fetchone_referral_commit fetchone_tap_commit [OF assms(1)]
        split: option.splits if_splits)
qed

lemma tapped_own_row_plain:
  assumes "fetchone db uid = Some u"
    and "handle_tap db uid now = (Tapped n, db')"
    and "referred_by u = None \<or> referred_by u = Some [] \<or> referral_code u \<noteq> referred_by u"
  shows "fetchone db' uid =
     Some (u\<lparr>taps := new_taps u, tap_timestamp := now,
              token_balance := token_balance u + new_tokens u\<rparr>)"
proof -
  from assms(2) obtain v where "fetchone db uid = Some v" and "eligible v now"
    by (rule handle_tap_Tapped)
  with assms(1) have "eligible u now" by simp
  from handle_tap_eligible [OF assms(1) this] assms(2) assms(3) show ?thesis
    by (auto simp: fetchone_referral_commit fetchone_tap_commit [OF assms(1)]
        split: option.splits if_splits)
qed

lemma tap_run_plain:
  "fetchone db uid = Some u \<Longrightarrow> tap_run db uid ts = (rs, db') \<Longrightarrow>
   \<forall>a \<in> set rs. \<exists>n. a = Tapped n \<Longrightarrow>
   referred_by u = None \<or> referred_by u = Some [] \<or> referral_code u \<noteq> referred_by u \<Longrightarrow>
   \<exists>u'. fetchone db' uid = Some u' \<and> mining_power u' = mining_power u \<and>
     token_balance u' = token_balance u + int (length ts) * new_tokens u"
proof (induction ts arbitrary: db u rs db')
  case Nil
  then show ?case by simp
next
  case (Cons t ts)
  obtain a db1 where step: "handle_tap db uid t = (a, db1)"
    by (cases "handle_tap db uid t")
  obtain as db2 where rest: "tap_run db1 uid ts = (as, db2)"
    by (cases "tap_run db1 uid ts")
  from Cons.prems(2) step rest have rs: "rs = a # as" and db': "db' = db2"
    by simp_all
  from Cons.prems(3) rs obtain n where a: "a = Tapped n"
    by auto
  let ?v = "u\<lparr>taps := new_taps u, tap_timestamp := t,
               token_balance := token_balance u + new_tokens u\<rparr>"
  from tapped_own_row_plain [OF Cons.prems(1) step [unfolded a] Cons.prems(4)]
  have v: "fetchone db1 uid = Some ?v" .
  from Cons.prems(3) rs have all: "\<forall>a \<in> set as. \<exists>n. a = Tapped n"
    by simp
  from Cons.prems(4)
  have plain: "referred_by ?v = None \<or> referred_by ?v = Some [] \<or>
      referral_code ?v \<noteq> referred_by ?v"
    by simp
  from Cons.IH [OF v rest all plain] obtain u' where
    "fetchone db2 uid = Some u'" "mining_power u' = mining_power ?v"
    "token_balance u' = token_balance ?v + int (length ts) * new_tokens ?v"
    by blast
  then show ?case
    unfolding db' by (simp add: new_tokens_def algebra_simps)
qed

text \<open>
  C3. A successful tap answers with the reward \<open>TAP_REWARD * mining_power = 1000 * m\<close>; its
  own UPDATE adds exactly this reward to the balance of the tapping account and sets
  \<open>tap_timestamp\<close> to the current instant, and the mining power stays \<open>m\<close>. Hence, for an
  account that receives no referral credit in between (it is not its own referrer), a run
  of \<open>N\<close> taps that all succeed makes the balance grow by \<open>N * 1000 * m\<close>.
\<close>

theorem successful_taps_add_reward:
  assumes "fetchone db uid = Some u"
  shows "(\<forall>now n db'. handle_tap db uid now = (Tapped n, db') \<longrightarrow>
            n = TAP_REWARD * mining_power u \<and> TAP_REWARD = 1000 \<and>
            (\<exists>v. fetchone (tap_commit db uid u now) uid = Some v \<and>
                 token_balance v = token_balance u + 1000 * mining_power u \<and>
                 tap_timestamp v = now) \<and>
            (\<exists>u'. fetchone db' uid = Some u' \<and> tap_timestamp u' = now \<and>
                 mining_power u' = mining_power u \<and>
                 (referred_by u = None \<or> referred_by u = Some [] \<or>
                  referral_code u \<noteq> referred_by u \<longrightarrow>
                    token_balance u' = token_balance u + 1000 * mining_power u))) \<and>
         (\<forall>ts rs db'. tap_run db uid ts = (rs, db') \<and> (\<forall>a \<in> set rs. \<exists>n. a = Tapped n) \<and>
            (referred_by u = None \<or> referred_by u = Some [] \<or>
             referral_code u \<noteq> referred_by u) \<longrightarrow>
            (\<exists>u'. fetchone db' uid = Some u' \<and> mining_power u' = mining_power u \<and>
                 token_balance u' =
                   token_balance u + int (length ts) * (1000 * mining_power u)))"
proof (intro conjI allI impI)
  fix now n db'
  assume t: "handle_tap db uid now = (Tapped n, db')"
  from t obtain v where "fetchone db uid = Some v" and "n = new_tokens v"
    by (rule handle_tap_Tapped)
  with assms show "n = TAP_REWARD * mining_power u"
    by (simp add: new_tokens_def)
  show "TAP_REWARD = 1000"
    by (simp add: TAP_REWARD_def)
  show "\<exists>v. fetchone (tap_commit db uid u now) uid = Some v \<and>
          token_balance v = token_balance u + 1000 * mining_power u \<and> tap_timestamp v = now"
    by (simp add: fetchone_tap_commit [OF assms] new_tokens_def TAP_REWARD_def)
  from tapped_own_row [OF assms t] obtain u' where
    u': "fetchone db' uid = Some u'" "tap_timestamp u' = now" "mining_power u' = mining_power u"
    by blast
  have "token_balance u' = token_balance u + 1000 * mining_power u"
    if "referred_by u = None \<or> referred_by u = Some [] \<or> referral_code u \<noteq> referred_by u"
    using tapped_own_row_plain [OF assms t that] u'(1)
    by (auto simp: new_tokens_def TAP_REWARD_def)
  with u' show "\<exists>u'. fetchone db' uid = Some u' \<and> tap_timestamp u' = now \<and>
      mining_power u' = mining_power u \<and>
      (referred_by u = None \<or> referred_by u = Some [] \<or> referral_code u \<noteq> referred_by u \<longrightarrow>
        token_balance u' = token_balance u + 1000 * mining_power u)"
    by blast
next
  fix ts rs db'
  assume "tap_run db uid ts = (rs, db') \<and> (\<forall>a \<in> set rs. \<exists>n. a = Tapped n) \<and>
    (referred_by u = None \<or> referred_by u = Some [] \<or> referral_code u \<noteq> referred_by u)"
  then have "\<exists>u'. fetchone db' uid = Some u' \<and> mining_power u' = mining_power u \<and>
     token_balance u' = token_balance u + int (length ts) * new_tokens u"
    using tap_run_plain [OF assms, of ts rs db'] by blast
  then show "\<exists>u'. fetchone db' uid = Some u' \<and> mining_power u' = mining_power u \<and>
      token_balance u' = token_balance u + int (length ts) * (1000 * mining_power u)"
    by (simp add: new_tokens_def TAP_REWARD_def)
qed

theorem successful_taps_add_reward_witness:
  "fetchone [inserted_row 7 0 0] 7 = Some (inserted_row 7 0 0) \<and>
   tap_run [inserted_row 7 0 0] 7 [1, 2, 3] =
     ([Tapped 100000, Tapped 100000, Tapped 100000],
      [(inserted_row 7 0 0)\<lparr>taps := 3, tap_timestamp := 3, token_balance := 300000\<rparr>]) \<and>
   (\<exists>u'. fetchone
           [(inserted_row 7 0 0)\<lparr>taps := 3, tap_timestamp := 3, token_balance := 300000\<rparr>] 7 =
           Some u' \<and>
         token_balance u' = token_balance (inserted_row 7 0 0) + int (length [1, 2, 3 :: int]) * (1000 * 100))"
proof -
  let ?db = "[inserted_row 7 0 0]"
  let ?db' = "[(inserted_row 7 0 0)\<lparr>taps := 3, tap_timestamp := 3, token_balance := 300000\<rparr>]"
  have h: "fetchone ?db 7 = Some (inserted_row 7 0 0)"
    by (simp add: fetchone_def inserted_row_def)
  have r: "tap_run ?db 7 [1, 2, 3] = ([Tapped 100000, Tapped 100000, Tapped 100000], ?db')"
    by code_simp
  have p: "referred_by (inserted_row 7 0 0) = None"
    by (simp add: inserted_row_def)
  have m: "mining_power (inserted_row 7 0 0) = 100"
    by (simp add: inserted_row_def)
  from successful_taps_add_reward [OF h] r p
  have "\<exists>u'. fetchone ?db' 7 = Some u' \<and> mining_power u' = mining_power (inserted_row 7 0 0) \<and>
      token_balance u' = token_balance (inserted_row 7 0 0) +
        int (length [1, 2, 3 :: int]) * (1000 * mining_power (inserted_row 7 0 0))"
    by (elim conjE allE [of _ "[1, 2, 3]"] allE [of _ "[Tapped 100000, Tapped 100000, Tapped 100000]"]
        allE [of _ ?db']) simp
  with h r m show ?thesis
    by auto
qed

section \<open>Balances never go down\<close>

lemma round53_nonneg: "0 \<le> m \<Longrightarrow> 0 \<le> fst (round53 (m, e))"
  by (auto simp: round53_def Let_def sgn_if intro!: pos_imp_zdiv_nonneg_iff [THEN iffD2] add_nonneg_nonneg)

lemma referrer_bonus_nonneg: "0 \<le> n \<Longrightarrow> 0 \<le> fst (referrer_bonus n)"
proof -
  assume n: "0 \<le> n"
  obtain m e where f: "float_of_int n = (m, e)"
    by (cases "float_of_int n")
  from round53_nonneg [OF n, of 0] f have "0 \<le> m"
    by (simp add: float_of_int_def)
  then have "0 \<le> m * 3602879701896397"
    by simp
  from round53_nonneg [OF this] f show ?thesis
    by (simp add: referrer_bonus_def float_mul_def REFERRAL_BONUS_PERCENTAGE_def)
qed

lemma bigint_plus_float_mono: "0 \<le> fst f \<Longrightarrow> b \<le> bigint_plus_float b f"
proof -
  assume nn: "0 \<le> fst f"
  obtain m e where f: "f = (m, e)"
    by (cases f)
  with nn have m: "0 \<le> m"
    by simp
  show ?thesis
  proof (cases "0 \<le> e")
    case True
    with m show ?thesis
      by (simp add: f bigint_plus_float_def)
  next
    case False
    define d :: int where "d = 2 ^ nat (- e)"
    have d: "0 < d"
      by (simp add: d_def)
    define n where "n = b * d + m"
    have up: "b \<le> (2 * n + d) div (2 * d)"
    proof -
      have "b * (2 * d) \<le> 2 * n + d"
        using m d by (simp add: n_def algebra_simps)
      then have "b * (2 * d) div (2 * d) \<le> (2 * n + d) div (2 * d)"
        by (rule zdiv_mono1) (use d in simp)
      with d show ?thesis by simp
    qed
    have down: "(2 * (- n) + d) div (2 * d) \<le> - b"
    proof -
      have "2 * (- n) + d \<le> (- b) * (2 * d) + d"
        using m d by (simp add: n_def algebra_simps)
      then have "(2 * (- n) + d) div (2 * d) \<le> ((- b) * (2 * d) + d) div (2 * d)"
        by (rule zdiv_mono1) (use d in simp)
      also have "((- b) * (2 * d) + d) div (2 * d) = - b + d div (2 * d)"
        using d by (subst div_mult_self3) simp_all
      also have "d div (2 * d) = 0"
        using d by (intro div_pos_pos_trivial) simp_all
      finally show ?thesis by simp
    qed
    from False up down show ?thesis
      by (simp add: f bigint_plus_float_def Let_def d_def [symmetric] n_def [symmetric])
  qed
qed

lemma handle_tap_rows:
  assumes "handle_tap db uid now = (a, db')"
  shows "length db' = length db \<and>
    (\<forall>j < length db.
       user_id (db' ! j) = user_id (db ! j) \<and>
       mining_power (db' ! j) = mining_power (db ! j) \<and>
       referral_code (db' ! j) = referral_code (db ! j) \<and>
       referred_by (db' ! j) = referred_by (db ! j))"
proof (cases "fetchone db uid")
  case None
  with assms show ?thesis by (simp add: handle_tap_unregistered)
next
  case (Some u)
  show ?thesis
  proof (cases "eligible u now")
    case False
    with Some assms show ?thesis by (simp add: handle_tap_ineligible)
  next
    case True
    from handle_tap_eligible [OF Some True] assms
    have db': "db' = (case referred_by u of
        None \<Rightarrow> tap_commit db uid u now
      | Some code \<Rightarrow>
          if code \<noteq> [] then
            referral_commit (tap_commit db uid u now) code (referrer_bonus (new_tokens u))
          else tap_commit db uid u now)"
      by simp
    show ?thesis
      unfolding db'
      by (auto simp: tap_commit_nth referral_commit_nth length_tap_commit
          length_referral_commit split: option.splits)
  qed
qed

lemma primary_key_row:
  assumes "distinct (map user_id db)" and "i < length db"
    and "fetchone db uid = Some u" and "user_id (db ! i) = uid"
  shows "u = db ! i"
proof -
  from assms(1) have "inj_on user_id (set db)"
    by (simp add: distinct_map)
  moreover from fetchone_Some [OF assms(3)] have "u \<in> set db" "user_id u = uid"
    by simp_all
  moreover from assms(2) have "db ! i \<in> set db"
    by simp
  ultimately show ?thesis
    using assms(4) by (auto dest: inj_onD)
qed

lemma handle_tap_balance:
  assumes pk: "distinct (map user_id db)" and i: "i < length db"
    and own: "0 \<le> mining_power (db ! i)"
    and refs: "\<forall>r \<in> set db. \<forall>c. referred_by r = Some c \<and> referral_code (db ! i) = Some c \<longrightarrow>
        0 \<le> mining_power r"
    and tap: "handle_tap db uid now = (a, db')"
  shows "token_balance (db ! i) \<le> token_balance (db' ! i)"
proof (cases "fetchone db uid")
  case None
  with tap show ?thesis by (simp add: handle_tap_unregistered)
next
  case (Some u)
  show ?thesis
  proof (cases "eligible u now")
    case False
    with Some tap show ?thesis by (simp add: handle_tap_ineligible)
  next
    case True
    let ?db1 = "tap_commit db uid u now"
    have first: "token_balance (db ! i) \<le> token_balance (?db1 ! i)"
    proof (cases "user_id (db ! i) = uid")
      case True
      from primary_key_row [OF pk i Some True] own have "0 \<le> new_tokens u"
        by (simp add: new_tokens_def TAP_REWARD_def)
      with i show ?thesis
        by (simp add: tap_commit_nth)
    next
      case False
      with i show ?thesis
        by (simp add: tap_commit_nth)
    qed
    have second: "token_balance (db ! i) \<le>
        token_balance (referral_commit ?db1 code (referrer_bonus (new_tokens u)) ! i)"
      if code: "referred_by u = Some code" for code
    proof (cases "referral_code (db ! i) = Some code")
      case True
      from fetchone_Some [OF Some] have "u \<in> set db"
        by simp
      with refs code True have "0 \<le> mining_power u"
        by auto
      then have "0 \<le> new_tokens u"
        by (simp add: new_tokens_def TAP_REWARD_def)
      from bigint_plus_float_mono [OF referrer_bonus_nonneg [OF this], of "token_balance (?db1 ! i)"]
        first
      have "token_balance (db ! i) \<le>
          bigint_plus_float (token_balance (?db1 ! i)) (referrer_bonus (new_tokens u))"
        by simp
      with i True show ?thesis
        by (simp add: referral_commit_nth length_tap_commit tap_commit_nth)
    next
      case False
      with i first show ?thesis
        by (simp add: referral_commit_nth length_tap_commit tap_commit_nth)
    qed
    from handle_tap_eligible [OF Some True] tap
    have db': "db' = (case referred_by u of
        None \<Rightarrow> ?db1
      | Some code \<Rightarrow>
          if code \<noteq> [] then referral_commit ?db1 code (referrer_bonus (new_tokens u))
          else ?db1)"
      by simp
    show ?thesis
      unfolding db' using first second
      by (auto split: option.splits)
  qed
qed

lemma dispatch_step_account:
  assumes pk: "distinct (map user_id db)" and i: "i < length db"
    and own: "0 \<le> mining_power (db ! i)"
    and refs: "\<forall>r \<in> set db. \<forall>c. referred_by r = Some c \<and> referral_code (db ! i) = Some c \<longrightarrow>
        0 \<le> mining_power r"
    and step: "dispatch isAddress db now q = (a, db')"
  shows "distinct (map user_id db') \<and> i < length db' \<and>
    user_id (db' ! i) = user_id (db ! i) \<and>
    mining_power (db' ! i) = mining_power (db ! i) \<and>
    referral_code (db' ! i) = referral_code (db ! i) \<and>
    (\<forall>r \<in> set db'. \<forall>c. referred_by r = Some c \<and> referral_code (db' ! i) = Some c \<longrightarrow>
       0 \<le> mining_power r) \<and>
    token_balance (db ! i) \<le> token_balance (db' ! i)"
proof (cases q)
  case (SkipRequest uid)
  with step have s: "skip db uid now = (a, db')"
    by simp
  show ?thesis
  proof (cases "fits_integer uid \<and> (\<forall>r \<in> set db. user_id r \<noteq> uid)")
    case True
    with s have db': "db' = db @ [inserted_row uid BONUS_TOKENS now]"
      by (auto simp: skip_def)
    from True pk have "distinct (map user_id db')"
      unfolding db' by (auto simp: inserted_row_def)
    moreover have "referred_by (inserted_row uid BONUS_TOKENS now) = None"
      by (simp add: inserted_row_def)
    ultimately show ?thesis
      unfolding db' using i pk refs by (auto simp: nth_append)
  next
    case False
    with s have "db' = db"
      by (auto simp: skip_def split: if_splits)
    with pk i refs show ?thesis
      by simp
  qed
next
  case (WalletRequest uid addr)
  with step obtain b where w: "handle_wallet_address isAddress db uid addr = (b, db')"
    by (auto split: prod.splits)
  have rows: "length db' = length db \<and>
    (\<forall>j < length db.
       user_id (db' ! j) = user_id (db ! j) \<and>
       mining_power (db' ! j) = mining_power (db ! j) \<and>
       referral_code (db' ! j) = referral_code (db ! j) \<and>
       referred_by (db' ! j) = referred_by (db ! j) \<and>
       token_balance (db' ! j) = token_balance (db ! j))"
    using w
    by (auto simp: handle_wallet_address_def length_update_where nth_update_where
        split: if_splits)
  then have ids: "map user_id db' = map user_id db"
    by (intro nth_equalityI) simp_all
  have "0 \<le> mining_power r"
    if "r \<in> set db'" "referred_by r = Some c" "referral_code (db' ! i) = Some c" for r c
  proof -
    from that(1) obtain j where j: "j < length db'" "r = db' ! j"
      by (auto simp: in_set_conv_nth)
    with rows have "db ! j \<in> set db" "referred_by (db ! j) = referred_by r"
      "mining_power (db ! j) = mining_power r"
      by simp_all
    with refs that(2,3) rows i show ?thesis
      by (metis)
  qed
  with rows ids pk i show ?thesis
    by simp
next
  case (DashboardRequest uid)
  with step have "db' = db"
    by (auto simp: view_dashboard_def split: option.splits prod.splits)
  with pk i refs show ?thesis
    by simp
next
  case (TapRequest uid)
  with step obtain b where t: "handle_tap db uid now = (b, db')"
    by (auto split: prod.splits)
  note rows = handle_tap_rows [OF t]
  then have ids: "map user_id db' = map user_id db"
    by (intro nth_equalityI) simp_all
  have "0 \<le> mining_power r"
    if "r \<in> set db'" "referred_by r = Some c" "referral_code (db' ! i) = Some c" for r c
  proof -
    from that(1) obtain j where j: "j < length db'" "r = db' ! j"
      by (auto simp: in_set_conv_nth)
    with rows have "db ! j \<in> set db" "referred_by (db ! j) = referred_by r"
      "mining_power (db ! j) = mining_power r"
      by simp_all
    with refs that(2,3) rows i show ?thesis
      by (metis)
  qed
  with rows ids pk i handle_tap_balance [OF pk i own refs t] show ?thesis
    by simp
qed

lemma run_account:
  "distinct (map user_id db) \<Longrightarrow> i < length db \<Longrightarrow> 0 \<le> mining_power (db ! i) \<Longrightarrow>
   \<forall>r \<in> set db. \<forall>c. referred_by r = Some c \<and> referral_code (db ! i) = Some c \<longrightarrow>
      0 \<le> mining_power r \<Longrightarrow>
   distinct (map user_id (run isAddress db qs)) \<and> i < length (run isAddress db qs) \<and>
   user_id (run isAddress db qs ! i) = user_id (db ! i) \<and>
   mining_power (run isAddress db qs ! i) = mining_power (db ! i) \<and>
   (\<forall>r \<in> set (run isAddress db qs). \<forall>c.
      referred_by r = Some c \<and> referral_code (run isAddress db qs ! i) = Some c \<longrightarrow>
      0 \<le> mining_power r) \<and>
   token_balance (db ! i) \<le> token_balance (run isAddress db qs ! i)"
proof (induction qs arbitrary: db)
  case Nil
  then show ?case by simp
next
  case (Cons p qs)
  obtain now q where p: "p = (now, q)"
    by (cases p)
  obtain a db1 where step: "dispatch isAddress db now q = (a, db1)"
    by (cases "dispatch isAddress db now q")
  note one = dispatch_step_account [OF Cons.prems step]
  show ?case
  proof (cases a)
    case (Inl e)
    with p step have "run isAddress db (p # qs) = db1"
      by simp
    with one show ?thesis
      by simp
  next
    case (Inr b)
    with p step have r: "run isAddress db (p # qs) = run isAddress db1 qs"
      by simp
    from one have "distinct (map user_id db1)" "i < length db1" "0 \<le> mining_power (db1 ! i)"
      "\<forall>r \<in> set db1. \<forall>c. referred_by r = Some c \<and> referral_code (db1 ! i) = Some c \<longrightarrow>
         0 \<le> mining_power r"
      using Cons.prems(3) by simp_all
    from Cons.IH [OF this] one show ?thesis
      unfolding r by simp
  qed
qed

text \<open>
  C9, as the claim states it, fails: the credit to a referrer is a tenth of the reward
  of the account that taps, and the reward follows that account's mining power. An
  account with the mining power \<open>100\<close> and the balance \<open>1000\<close>, named as referrer by an
  account whose mining power is \<open>- 7\<close>, is left with \<open>300\<close> by the tap of that account.
\<close>

theorem negative_referee_lowers_referrer:
  "mining_power ((inserted_row 1 1000 0)\<lparr>referral_code := Some ''a''\<rparr>) = 100 \<and>
   token_balance ((inserted_row 1 1000 0)\<lparr>referral_code := Some ''a''\<rparr>) = 1000 \<and>
   handle_tap
     [(inserted_row 1 1000 0)\<lparr>referral_code := Some ''a''\<rparr>,
      (inserted_row 2 0 0)\<lparr>referred_by := Some ''a'', mining_power := - 7\<rparr>] 2 5 =
     (Tapped (- 7000),
      [(inserted_row 1 1000 0)\<lparr>referral_code := Some ''a'', token_balance := 300\<rparr>,
       (inserted_row 2 0 0)\<lparr>referred_by := Some ''a'', mining_power := - 7, taps := 1,
          tap_timestamp := 5, token_balance := - 7000\<rparr>])"
proof -
  have "handle_tap
     [(inserted_row 1 1000 0)\<lparr>referral_code := Some ''a''\<rparr>,
      (inserted_row 2 0 0)\<lparr>referred_by := Some ''a'', mining_power := - 7\<rparr>] 2 5 =
     (Tapped (- 7000),
      [(inserted_row 1 1000 0)\<lparr>referral_code := Some ''a'', token_balance := 300\<rparr>,
       (inserted_row 2 0 0)\<lparr>referred_by := Some ''a'', mining_power := - 7, taps := 1,
          tap_timestamp := 5, token_balance := - 7000\<rparr>])"
    by code_simp
  then show ?thesis
    by (simp add: inserted_row_def)
qed

text \<open>
  C9, amended. In a table that satisfies the primary key, take an account with a mining
  power of at least \<open>INITIAL_MINING_POWER = 100\<close> such that no account that names its
  \<open>referral_code\<close> in \<open>referred_by\<close> has a negative mining power. Then after any run of
  skip, wallet, dashboard and tap requests (a tap includes the credit to the referrer)
  the account is still in its place and its balance is at least what it was; and the
  table again satisfies what was assumed of it, so the same holds from there on.
\<close>

theorem balance_never_decreases:
  assumes "distinct (map user_id db)"
    and "i < length db"
    and "INITIAL_MINING_POWER \<le> mining_power (db ! i)"
    and "\<forall>r \<in> set db. \<forall>c. referred_by r = Some c \<and> referral_code (db ! i) = Some c \<longrightarrow>
      0 \<le> mining_power r"
  shows "i < length (run isAddress db qs) \<and>
    user_id (run isAddress db qs ! i) = user_id (db ! i) \<and>
    token_balance (db ! i) \<le> token_balance (run isAddress db qs ! i) \<and>
    distinct (map user_id (run isAddress db qs)) \<and>
    mining_power (run isAddress db qs ! i) = mining_power (db ! i) \<and>
    (\<forall>r \<in> set (run isAddress db qs). \<forall>c.
       referred_by r = Some c \<and> referral_code (run isAddress db qs ! i) = Some c \<longrightarrow>
       0 \<le> mining_power r)"
proof -
  from assms(3) have "0 \<le> mining_power (db ! i)"
    by (simp add: INITIAL_MINING_POWER_def)
  from run_account [OF assms(1,2) this assms(4), of isAddress qs] show ?thesis
    by simp
qed

theorem balance_never_decreases_witness:
  "distinct
     (map user_id
        [(inserted_row 1 0 0)\<lparr>referral_code := Some ''a''\<rparr>,
         (inserted_row 2 0 0)\<lparr>referred_by := Some ''a''\<rparr>]) \<and>
   mining_power
     ([(inserted_row 1 0 0)\<lparr>referral_code := Some ''a''\<rparr>,
       (inserted_row 2 0 0)\<lparr>referred_by := Some ''a''\<rparr>] ! 0) = 100 \<and>
   run (\<lambda>a. a = ''0x52908400098527886E0F7030069857D2E4169EE7'')
     [(inserted_row 1 0 0)\<lparr>referral_code := Some ''a''\<rparr>,
      (inserted_row 2 0 0)\<lparr>referred_by := Some ''a''\<rparr>]
     [(5, TapRequest 2), (6, SkipRequest 3),
      (7, WalletRequest 1 ''0x52908400098527886E0F7030069857D2E4169EE7''),
      (8, DashboardRequest 2)] =
     [(inserted_row 1 0 0)\<lparr>referral_code := Some ''a'', token_balance := 10000,
         wallet_address := Some ''0x52908400098527886E0F7030069857D2E4169EE7''\<rparr>,
      (inserted_row 2 0 0)\<lparr>referred_by := Some ''a'', taps := 1, tap_timestamp := 5,
         token_balance := 100000\<rparr>,
      inserted_row 3 500000 6] \<and>
   token_balance
     ([(inserted_row 1 0 0)\<lparr>referral_code := Some ''a''\<rparr>,
       (inserted_row 2 0 0)\<lparr>referred_by := Some ''a''\<rparr>] ! 0) \<le>
     token_balance
       (run (\<lambda>a. a = ''0x52908400098527886E0F7030069857D2E4169EE7'')
          [(inserted_row 1 0 0)\<lparr>referral_code := Some ''a''\<rparr>,
           (inserted_row 2 0 0)\<lparr>referred_by := Some ''a''\<rparr>]
          [(5, TapRequest 2), (6, SkipRequest 3),
           (7, WalletRequest 1 ''0x52908400098527886E0F7030069857D2E4169EE7''),
           (8, DashboardRequest 2)] ! 0)"
proof -
  let ?db = "[(inserted_row 1 0 0)\<lparr>referral_code := Some ''a''\<rparr>,
               (inserted_row 2 0 0)\<lparr>referred_by := Some ''a''\<rparr>]"
  let ?isAddress = "\<lambda>a. a = ''0x52908400098527886E0F7030069857D2E4169EE7''"
  let ?qs = "[(5, TapRequest 2), (6, SkipRequest 3),
      (7, WalletRequest 1 ''0x52908400098527886E0F7030069857D2E4169EE7''),
      (8, DashboardRequest 2)]"
  have pk: "distinct (map user_id ?db)"
    by (simp add: inserted_row_def)
  have i: "0 < length ?db"
    by simp
  have m: "mining_power (?db ! 0) = 100"
    by (simp add: inserted_row_def)
  then have own: "INITIAL_MINING_POWER \<le> mining_power (?db ! 0)"
    by (simp only: INITIAL_MINING_POWER_def)
  have refs: "\<forall>r \<in> set ?db. \<forall>c. referred_by r = Some c \<and> referral_code (?db ! 0) = Some c \<longrightarrow>
      0 \<le> mining_power r"
    by (simp add: inserted_row_def)
  have r: "run ?isAddress ?db ?qs =
     [(inserted_row 1 0 0)\<lparr>referral_code := Some ''a'', token_balance := 10000,
         wallet_address := Some ''0x52908400098527886E0F7030069857D2E4169EE7''\<rparr>,
      (inserted_row 2 0 0)\<lparr>referred_by := Some ''a'', taps := 1, tap_timestamp := 5,
         token_balance := 100000\<rparr>,
      inserted_row 3 500000 6]"
    by code_simp
  from balance_never_decreases [OF pk i own refs, of ?isAddress ?qs]
  have "token_balance (?db ! 0) \<le> token_balance (run ?isAddress ?db ?qs ! 0)"
    by blast
  with pk m r show ?thesis
    by blast
qed

section \<open>The referral bonus is exact\<close>

lemma bit_length_le_iff: "bit_length k \<le> b \<longleftrightarrow> k < 2 ^ b"
proof (induction k arbitrary: b rule: bit_length.induct)
  case (1 n)
  show ?case
  proof (cases "n \<le> 0")
    case True
    have "(0::int) < 2 ^ b" by simp
    with True have "n < 2 ^ b" by (rule le_less_trans)
    with True show ?thesis
      by (simp add: bit_length.simps [of n])
  next
    case False
    show ?thesis
    proof (cases b)
      case 0
      with False show ?thesis
        by (simp add: bit_length.simps [of n])
    next
      case (Suc c)
      from "1.IH" [OF False, of c] have "bit_length (n div 2) \<le> c \<longleftrightarrow> n div 2 < 2 ^ c" .
      also have "n div 2 < 2 ^ c \<longleftrightarrow> n < 2 * 2 ^ c"
        by arith
      finally show ?thesis
        using False Suc by (simp add: bit_length.simps [of n])
    qed
  qed
qed

lemma bit_length_eq: "2 ^ k \<le> x \<Longrightarrow> x < 2 ^ Suc k \<Longrightarrow> bit_length x = Suc k"
proof -
  assume lo: "2 ^ k \<le> x" and hi: "x < 2 ^ Suc k"
  from hi have "bit_length x \<le> Suc k"
    by (simp only: bit_length_le_iff)
  moreover from lo have "\<not> bit_length x \<le> k"
    by (simp add: bit_length_le_iff)
  ultimately show ?thesis by simp
qed

lemma bit_length_bounds:
  "0 < x \<Longrightarrow> 0 < bit_length x \<and> 2 ^ (bit_length x - 1) \<le> x \<and> x < 2 ^ bit_length x"
proof -
  assume x: "0 < x"
  have hi: "x < 2 ^ bit_length x"
    using bit_length_le_iff [of x "bit_length x"] by simp
  have pos: "0 < bit_length x"
    using x by (simp add: bit_length.simps [of x])
  have "\<not> bit_length x \<le> bit_length x - 1"
    using pos by simp
  then have "\<not> x < 2 ^ (bit_length x - 1)"
    using bit_length_le_iff [of x "bit_length x - 1"] by simp
  with hi pos show ?thesis by simp
qed

lemma bigint_plus_float_exact: "bigint_plus_float b (c * 2 ^ k, - int k) = b + c"
proof (cases k)
  case 0
  then show ?thesis by (simp add: bigint_plus_float_def)
next
  case (Suc j)
  define d :: int where "d = 2 ^ k"
  have d: "0 < d" by (simp add: d_def)
  have half: "d div (2 * d) = 0"
    using d by (intro div_pos_pos_trivial) simp_all
  have up: "(2 * ((b + c) * d) + d) div (2 * d) = b + c"
  proof -
    have "2 * ((b + c) * d) + d = (b + c) * (2 * d) + d" by simp
    also have "\<dots> div (2 * d) = (b + c) + d div (2 * d)"
      using d by (subst div_mult_self3) simp_all
    finally show ?thesis using half by simp
  qed
  have down: "(2 * (- ((b + c) * d)) + d) div (2 * d) = - (b + c)"
  proof -
    have "2 * (- ((b + c) * d)) + d = (- (b + c)) * (2 * d) + d"
      by (simp add: algebra_simps)
    also have "\<dots> div (2 * d) = (- (b + c)) + d div (2 * d)"
      using d by (subst div_mult_self3) simp_all
    finally show ?thesis using half by simp
  qed
  have n: "b * d + c * d = (b + c) * d"
    by (simp add: algebra_simps)
  from Suc have neg: "\<not> 0 \<le> - int k" by simp
  have "bigint_plus_float b (c * 2 ^ k, - int k) =
      (if 0 \<le> b * d + c * d then (2 * (b * d + c * d) + d) div (2 * d)
       else - ((2 * (- (b * d + c * d)) + d) div (2 * d)))"
    by (simp only: bigint_plus_float_def prod.case Let_def neg if_False minus_minus nat_int
        d_def)
  also have "\<dots> = b + c"
    unfolding n by (simp only: up down minus_minus if_cancel)
  finally show ?thesis .
qed

lemma round53_small: "\<bar>m\<bar> < 2 ^ 53 \<Longrightarrow> round53 (m, e) = (m, e)"
  by (simp add: round53_def bit_length_le_iff)

lemma round53_down:
  assumes l: "bit_length \<bar>m\<bar> = 53 + s" and s: "0 < s"
    and m: "\<bar>m\<bar> = q * 2 ^ s + r" and r: "0 \<le> r" "2 * r < 2 ^ s"
  shows "round53 (m, e) = (sgn m * q, e + int s)"
proof -
  have p: "(2::int) ^ s = 2 * 2 ^ (s - 1)"
    using s by (cases s) simp_all
  with r have rh: "r < 2 ^ (s - 1)" and rs: "r < 2 ^ s"
    by simp_all
  have dv: "\<bar>m\<bar> div 2 ^ s = q"
    unfolding m using r(1) rs by (simp add: div_pos_pos_trivial)
  have md: "\<bar>m\<bar> mod 2 ^ s = r"
    unfolding m using r(1) rs by (simp add: mod_pos_pos_trivial)
  show ?thesis
    using s rh by (simp add: round53_def Let_def l dv md)
qed

lemma ten_percent: "10 * 3602879701896397 = (2::int) ^ 55 + 2"
  by simp

lemma referrer_bonus_exact:
  assumes range: "\<bar>1000 * mp\<bar> < 2 ^ 53"
  shows "\<exists>k. referrer_bonus (1000 * mp) = (100 * mp * 2 ^ k, - int k)"
proof -
  have conv: "float_of_int (1000 * mp) = (1000 * mp, 0)"
    unfolding float_of_int_def using range by (rule round53_small)
  have prod: "referrer_bonus (1000 * mp) = round53 (1000 * mp * 3602879701896397, - 55)"
    by (simp add: referrer_bonus_def conv float_mul_def REFERRAL_BONUS_PERCENTAGE_def)
  show ?thesis
  proof (cases "mp = 0")
    case True
    have "referrer_bonus (1000 * mp) = (100 * mp * 2 ^ 55, - int 55)"
      unfolding prod using True by (simp add: round53_small)
    then show ?thesis ..
  next
    case False
    define t where "t = 100 * \<bar>mp\<bar>"
    define b where "b = bit_length t"
    from False have t: "0 < t"
      by (simp add: t_def)
    from range have t53: "t < 2 ^ 53"
      by (simp add: t_def abs_mult)
    from bit_length_bounds [OF t] have b: "0 < b" "2 ^ (b - 1) \<le> t" "t < 2 ^ b"
      by (simp_all add: b_def)
    from t53 have b53: "b \<le> 53"
      by (simp add: b_def bit_length_le_iff)
    define k where "k = 53 - b"
    have mag: "\<bar>1000 * mp * 3602879701896397\<bar> = t * 2 ^ 55 + 2 * t"
    proof -
      have "\<bar>1000 * mp * 3602879701896397\<bar> = t * (10 * 3602879701896397)"
        by (simp add: t_def abs_mult)
      also have "\<dots> = t * (2 ^ 55 + 2)"
        by (simp only: ten_percent)
      finally show ?thesis
        by (simp add: algebra_simps)
    qed
    have split: "t * 2 ^ 55 + 2 * t = (t * 2 ^ k) * 2 ^ (b + 2) + 2 * t"
    proof -
      have "k + (b + 2) = 55"
        using b53 by (simp add: k_def)
      then have "(2::int) ^ 55 = 2 ^ k * 2 ^ (b + 2)"
        by (simp only: power_add [symmetric])
      then show ?thesis
        by (simp only: mult.assoc)
    qed
    have low: "2 * (2 * t) < 2 ^ (b + 2)"
      using b(3) by simp
    have len: "bit_length (t * 2 ^ 55 + 2 * t) = Suc (b + 54)"
    proof (rule bit_length_eq)
      have "(2::int) ^ (b + 54) = 2 ^ (b - 1) * 2 ^ 55"
        using b(1) by (simp only: power_add [symmetric]) simp
      also have "\<dots> \<le> t * 2 ^ 55"
        using b(2) by simp
      also have "\<dots> \<le> t * 2 ^ 55 + 2 * t"
        using t by simp
      finally show "2 ^ (b + 54) \<le> t * 2 ^ 55 + 2 * t" .
    next
      have "t * 2 ^ 55 + 2 * t < t * 2 ^ 55 + 2 ^ 55"
        using t53 by simp
      also have "\<dots> = (t + 1) * 2 ^ 55"
        by (simp add: algebra_simps)
      also have "\<dots> \<le> 2 ^ b * 2 ^ 55"
        using b(3) by simp
      also have "\<dots> = 2 ^ Suc (b + 54)"
        by (simp only: power_add [symmetric]) simp
      finally show "t * 2 ^ 55 + 2 * t < 2 ^ Suc (b + 54)" .
    qed
    have "round53 (1000 * mp * 3602879701896397, - 55) =
        (sgn (1000 * mp * 3602879701896397) * (t * 2 ^ k), - 55 + int (b + 2))"
    proof (rule round53_down)
      show "bit_length \<bar>1000 * mp * 3602879701896397\<bar> = 53 + (b + 2)"
        unfolding mag len by simp
      show "0 < b + 2"
        by simp
      show "\<bar>1000 * mp * 3602879701896397\<bar> = t * 2 ^ k * 2 ^ (b + 2) + 2 * t"
        unfolding mag by (rule split)
      show "0 \<le> 2 * t"
        using t by simp
      show "2 * (2 * t) < 2 ^ (b + 2)"
        by (rule low)
    qed
    moreover have "sgn (1000 * mp * 3602879701896397) * (t * 2 ^ k) = 100 * mp * 2 ^ k"
      by (simp add: t_def sgn_mult mult_sgn_abs)
    moreover have "- 55 + int (b + 2) = - int k"
      using b53 by (simp add: k_def)
    ultimately have "referrer_bonus (1000 * mp) = (100 * mp * 2 ^ k, - int k)"
      unfolding prod by simp
    then show ?thesis ..
  qed
qed

lemma referral_credit_exact:
  "\<bar>1000 * mp\<bar> < 2 ^ 53 \<Longrightarrow>
   bigint_plus_float b (referrer_bonus (1000 * mp)) = b + 100 * mp"
  using referrer_bonus_exact [of mp] by (auto simp: bigint_plus_float_exact)

lemma tenth_of_reward: "1000 * mp div 10 = round (of_int (1000 * mp) * (1 / 10) :: rat)"
proof -
  have "of_int (1000 * mp) * (1 / 10) = (of_int (100 * mp) :: rat)"
    by simp
  then show ?thesis
    by (simp only: round_of_int)
qed

text \<open>
  C5, as the claim states it, fails for the empty code: an empty \<open>referred_by\<close> resolves
  to the account whose \<open>referral_code\<close> is the empty string, yet the test \<open>referrer[0]\<close>
  of the handler takes the empty string for no referrer, and the account is not credited
  the \<open>round(100000 * 0.10) = 10000\<close> tokens.
\<close>

theorem empty_referral_code_not_credited:
  "referred_by ((inserted_row 2 0 0)\<lparr>referred_by := Some []\<rparr>) =
     referral_code ((inserted_row 1 0 0)\<lparr>referral_code := Some []\<rparr>) \<and>
   referral_code ((inserted_row 1 0 0)\<lparr>referral_code := Some []\<rparr>) = Some [] \<and>
   handle_tap
     [(inserted_row 1 0 0)\<lparr>referral_code := Some []\<rparr>,
      (inserted_row 2 0 0)\<lparr>referred_by := Some []\<rparr>] 2 5 =
     (Tapped 100000,
      [(inserted_row 1 0 0)\<lparr>referral_code := Some []\<rparr>,
       (inserted_row 2 0 0)\<lparr>referred_by := Some [], taps := 1, tap_timestamp := 5,
          token_balance := 100000\<rparr>]) \<and>
   round (of_int 100000 * (1 / 10) :: rat) = 10000"
proof -
  have tap: "handle_tap
     [(inserted_row 1 0 0)\<lparr>referral_code := Some []\<rparr>,
      (inserted_row 2 0 0)\<lparr>referred_by := Some []\<rparr>] 2 5 =
     (Tapped 100000,
      [(inserted_row 1 0 0)\<lparr>referral_code := Some []\<rparr>,
       (inserted_row 2 0 0)\<lparr>referred_by := Some [], taps := 1, tap_timestamp := 5,
          token_balance := 100000\<rparr>])"
    by code_simp
  have "(of_int 100000 * (1 / 10) :: rat) = 10000"
    by simp
  then have "round (of_int 100000 * (1 / 10) :: rat) = 10000"
    by (simp only: round_numeral)
  with tap show ?thesis
    by (simp add: inserted_row_def)
qed

text \<open>
  C5, amended. Let a user whose mining power fits the INTEGER column make an eligible tap
  with the reward \<open>R = 1000 * mining_power\<close>. If \<open>referred_by\<close> is a code other than the
  empty string, the handler commits twice. The table of its first commit has the tap
  written into the row of the user and every other row as it was, so no credit to a
  referrer yet. The table of its second commit is the first with one more UPDATE applied:
  every row whose \<open>referral_code\<close> is that code has its balance raised by exactly
  \<open>R div 10 = round (R * 0.10)\<close> and every other row is as the first commit left it; when
  no row holds the code the second table is the first, so the tap stays as committed.
  If \<open>referred_by\<close> is NULL or the empty string the handler commits the tap and nothing
  else.
\<close>

theorem referral_credit_after_tap_commit:
  assumes "fetchone db uid = Some u"
    and "taps u < MAX_TAPS_PER_DAY \<or> now - tap_timestamp u > one_day"
    and "- (2 ^ 31) \<le> mining_power u" and "mining_power u < 2 ^ 31"
  shows "(\<forall>code. referred_by u = Some code \<and> code \<noteq> [] \<longrightarrow>
            tap_after_select db uid now (fetchone db uid) =
              (Tapped (1000 * mining_power u),
               [tap_commit db uid u now,
                referral_commit (tap_commit db uid u now) code
                  (referrer_bonus (1000 * mining_power u))]) \<and>
            handle_tap db uid now =
              (Tapped (1000 * mining_power u),
               referral_commit (tap_commit db uid u now) code
                 (referrer_bonus (1000 * mining_power u))) \<and>
            (\<forall>i < length db.
               tap_commit db uid u now ! i =
                 (if user_id (db ! i) = uid
                  then (db ! i)
                    \<lparr>taps := (if taps u < MAX_TAPS_PER_DAY then taps u + 1 else 1),
                       tap_timestamp := now,
                       token_balance := token_balance (db ! i) + 1000 * mining_power u\<rparr>
                  else db ! i)) \<and>
            (\<forall>i < length db.
               referral_commit (tap_commit db uid u now) code
                   (referrer_bonus (1000 * mining_power u)) ! i =
                 (if referral_code (db ! i) = Some code
                  then (tap_commit db uid u now ! i)
                    \<lparr>token_balance := token_balance (tap_commit db uid u now ! i) +
                        1000 * mining_power u div 10\<rparr>
                  else tap_commit db uid u now ! i)) \<and>
            ((\<forall>r \<in> set db. referral_code r \<noteq> Some code) \<longrightarrow>
               referral_commit (tap_commit db uid u now) code
                   (referrer_bonus (1000 * mining_power u)) =
                 tap_commit db uid u now)) \<and>
         (referred_by u = None \<or> referred_by u = Some [] \<longrightarrow>
            tap_after_select db uid now (fetchone db uid) =
              (Tapped (1000 * mining_power u), [tap_commit db uid u now]) \<and>
            handle_tap db uid now = (Tapped (1000 * mining_power u), tap_commit db uid u now)) \<and>
         1000 * mining_power u div 10 = round (of_int (1000 * mining_power u) * (1 / 10) :: rat)"
proof -
  let ?R = "1000 * mining_power u"
  let ?db1 = "tap_commit db uid u now"
  from assms(2) have el: "eligible u now"
    by (simp add: eligible_def)
  have R: "new_tokens u = ?R"
    by (simp add: new_tokens_def TAP_REWARD_def)
  from assms(3,4) have "\<bar>?R\<bar> < 2 ^ 53"
    by simp
  then have exact: "bigint_plus_float b (referrer_bonus ?R) = b + 100 * mining_power u" for b
    by (rule referral_credit_exact)
  have tenth: "?R div 10 = 100 * mining_power u"
    by simp
  have phases: "tap_after_select db uid now (fetchone db uid) =
      (Tapped ?R,
       case referred_by u of
         None \<Rightarrow> [?db1]
       | Some code \<Rightarrow>
           if code \<noteq> [] then [?db1, referral_commit ?db1 code (referrer_bonus ?R)]
           else [?db1])"
    using el
    by (simp add: assms(1) tap_after_select_def fetchone_tap_commit [OF assms(1)] Let_def R
        split: option.splits)
  have whole: "handle_tap db uid now =
      (Tapped ?R, last (db # snd (tap_after_select db uid now (fetchone db uid))))"
    unfolding handle_tap_def phases by simp
  have first: "?db1 ! i =
      (if user_id (db ! i) = uid
       then (db ! i)\<lparr>taps := (if taps u < MAX_TAPS_PER_DAY then taps u + 1 else 1),
              tap_timestamp := now, token_balance := token_balance (db ! i) + ?R\<rparr>
       else db ! i)"
    if "i < length db" for i
    using that by (simp add: tap_commit_nth new_taps_def R)
  have second: "referral_commit ?db1 code (referrer_bonus ?R) ! i =
      (if referral_code (db ! i) = Some code
       then (?db1 ! i)\<lparr>token_balance := token_balance (?db1 ! i) + ?R div 10\<rparr>
       else ?db1 ! i)"
    if "i < length db" for code i
  proof -
    from that have "i < length ?db1"
      by (simp add: length_tap_commit)
    from referral_commit_nth [OF this, of code "referrer_bonus ?R"] that
    show ?thesis
      unfolding tenth by (simp add: exact tap_commit_nth)
  qed
  have noop: "referral_commit ?db1 code (referrer_bonus ?R) = ?db1"
    if "\<forall>r \<in> set db. referral_code r \<noteq> Some code" for code
  proof (rule nth_equalityI)
    show "length (referral_commit ?db1 code (referrer_bonus ?R)) = length ?db1"
      by (simp add: length_referral_commit)
  next
    fix i assume "i < length (referral_commit ?db1 code (referrer_bonus ?R))"
    then have i: "i < length db"
      by (simp add: length_referral_commit length_tap_commit)
    with that have "referral_code (db ! i) \<noteq> Some code"
      by simp
    with second [OF i, of code] show "referral_commit ?db1 code (referrer_bonus ?R) ! i = ?db1 ! i"
      by simp
  qed
  have a: "tap_after_select db uid now (fetchone db uid) =
        (Tapped ?R, [?db1, referral_commit ?db1 code (referrer_bonus ?R)]) \<and>
      handle_tap db uid now = (Tapped ?R, referral_commit ?db1 code (referrer_bonus ?R))"
    if "referred_by u = Some code" "code \<noteq> []" for code
    unfolding whole unfolding phases using that by simp
  have d: "tap_after_select db uid now (fetchone db uid) = (Tapped ?R, [?db1]) \<and>
      handle_tap db uid now = (Tapped ?R, ?db1)"
    if "referred_by u = None \<or> referred_by u = Some []"
    unfolding whole unfolding phases using that by auto
  from a first second noop d tenth_of_reward [of "mining_power u"] show ?thesis
    by blast
qed

theorem referral_credit_after_tap_commit_witness:
  "fetchone
     [(inserted_row 1 0 0)\<lparr>referral_code := Some ''a''\<rparr>,
      (inserted_row 2 0 0)\<lparr>referred_by := Some ''a''\<rparr>] 2 =
     Some ((inserted_row 2 0 0)\<lparr>referred_by := Some ''a''\<rparr>) \<and>
   tap_after_select
     [(inserted_row 1 0 0)\<lparr>referral_code := Some ''a''\<rparr>,
      (inserted_row 2 0 0)\<lparr>referred_by := Some ''a''\<rparr>] 2 5
     (fetchone
        [(inserted_row 1 0 0)\<lparr>referral_code := Some ''a''\<rparr>,
         (inserted_row 2 0 0)\<lparr>referred_by := Some ''a''\<rparr>] 2) =
     (Tapped 100000,
      [[(inserted_row 1 0 0)\<lparr>referral_code := Some ''a''\<rparr>,
        (inserted_row 2 0 0)\<lparr>referred_by := Some ''a'', taps := 1, tap_timestamp := 5,
           token_balance := 100000\<rparr>],
       [(inserted_row 1 0 0)\<lparr>referral_code := Some ''a'', token_balance := 10000\<rparr>,
        (inserted_row 2 0 0)\<lparr>referred_by := Some ''a'', taps := 1, tap_timestamp := 5,
           token_balance := 100000\<rparr>]]) \<and>
   referral_commit
     (tap_commit
        [(inserted_row 1 0 0)\<lparr>referral_code := Some ''a''\<rparr>,
         (inserted_row 2 0 0)\<lparr>referred_by := Some ''a''\<rparr>] 2
        ((inserted_row 2 0 0)\<lparr>referred_by := Some ''a''\<rparr>) 5) ''a''
     (referrer_bonus (1000 * mining_power ((inserted_row 2 0 0)\<lparr>referred_by := Some ''a''\<rparr>))) ! 0 =
     (inserted_row 1 0 0)\<lparr>referral_code := Some ''a'', token_balance := 10000\<rparr>"
proof -
  let ?a = "(inserted_row 1 0 0)\<lparr>referral_code := Some ''a''\<rparr>"
  let ?b = "(inserted_row 2 0 0)\<lparr>referred_by := Some ''a''\<rparr>"
  let ?c = "(inserted_row 2 0 0)\<lparr>referred_by := Some ''a'', taps := 1, tap_timestamp := 5,
           token_balance := 100000\<rparr>"
  have h: "fetchone [?a, ?b] 2 = Some ?b"
    by (simp add: fetchone_def inserted_row_def)
  have e: "taps ?b < MAX_TAPS_PER_DAY \<or> 5 - tap_timestamp ?b > one_day"
    by (simp add: inserted_row_def MAX_TAPS_PER_DAY_def)
  have lo: "- (2 ^ 31) \<le> mining_power ?b" and hi: "mining_power ?b < 2 ^ 31"
    by (simp_all add: inserted_row_def)
  have r: "referred_by ?b = Some ''a'' \<and> ''a'' \<noteq> []"
    by simp
  have i: "0 < length [?a, ?b]"
    by simp
  have m: "1000 * mining_power ?b = 100000"
    by (simp add: inserted_row_def)
  have t: "tap_commit [?a, ?b] 2 ?b 5 = [?a, ?c]"
    by (simp add: tap_commit_def update_where_def inserted_row_def new_taps_def new_tokens_def
        MAX_TAPS_PER_DAY_def TAP_REWARD_def)
  note credit = referral_credit_after_tap_commit [OF h e lo hi]
  from credit r i
  have row: "referral_commit (tap_commit [?a, ?b] 2 ?b 5) ''a''
        (referrer_bonus (1000 * mining_power ?b)) ! 0 =
      (if referral_code ([?a, ?b] ! 0) = Some ''a''
       then (tap_commit [?a, ?b] 2 ?b 5 ! 0)
         \<lparr>token_balance := token_balance (tap_commit [?a, ?b] 2 ?b 5 ! 0) +
             1000 * mining_power ?b div 10\<rparr>
       else tap_commit [?a, ?b] 2 ?b 5 ! 0)"
    by blast
  then have row': "referral_commit (tap_commit [?a, ?b] 2 ?b 5) ''a''
        (referrer_bonus (1000 * mining_power ?b)) ! 0 = ?a\<lparr>token_balance := 10000\<rparr>"
    unfolding t by (simp add: inserted_row_def)
  from credit r
  have "tap_after_select [?a, ?b] 2 5 (fetchone [?a, ?b] 2) =
      (Tapped (1000 * mining_power ?b),
       [tap_commit [?a, ?b] 2 ?b 5,
        referral_commit (tap_commit [?a, ?b] 2 ?b 5) ''a''
          (referrer_bonus (1000 * mining_power ?b))])"
    by blast
  moreover have "referral_commit (tap_commit [?a, ?b] 2 ?b 5) ''a''
      (referrer_bonus (1000 * mining_power ?b)) = [?a\<lparr>token_balance := 10000\<rparr>, ?c]"
    unfolding m by code_simp
  ultimately have "tap_after_select [?a, ?b] 2 5 (fetchone [?a, ?b] 2) =
      (Tapped 100000, [[?a, ?c], [?a\<lparr>token_balance := 10000\<rparr>, ?c]])"
    unfolding t m by simp
  with h row' show ?thesis
    by simp
qed

section \<open>The tap counter\<close>

lemma tap_counter_rule:
  assumes "fetchone db uid = Some u"
    and "handle_tap db uid now = (Tapped n, db')"
  shows "\<exists>u'. fetchone db' uid = Some u' \<and>
           taps u' = (if taps u < MAX_TAPS_PER_DAY then taps u + 1 else 1)"
proof -
  from assms(2) obtain v where "fetchone db uid = Some v" and "eligible v now"
    by (rule handle_tap_Tapped)
  with assms(1) have "eligible u now" by simp
  from handle_tap_eligible [OF assms(1) this] assms(2) show ?thesis
    by (auto simp: fetchone_referral_commit fetchone_tap_commit [OF assms(1)] new_taps_def
        split: option.splits if_splits)
qed

lemma rollover_at_the_cap:
  assumes "fetchone db uid = Some u"
    and "taps u = MAX_TAPS_PER_DAY" and "now - tap_timestamp u > one_day"
  shows "\<exists>n db' u'. handle_tap db uid now = (Tapped n, db') \<and>
           fetchone db' uid = Some u' \<and> taps u' = 1"
proof -
  from assms(3) have el: "eligible u now"
    by (simp add: eligible_def)
  obtain db' where t: "handle_tap db uid now = (Tapped (new_tokens u), db')"
    using handle_tap_eligible [OF assms(1) el] by simp
  from tap_counter_rule [OF assms(1) t] assms(2) t show ?thesis
    by auto
qed

text \<open>
  C2. The handler resets the counter only when it has reached \<open>MAX_TAPS_PER_DAY\<close>. For
  an account with \<open>taps = 3\<close> whose last tap is two days old the window has expired, yet
  the tap leaves \<open>taps = 4\<close>, not \<open>1\<close>. With \<open>taps = 9\<close> and a last tap three days old,
  the first tap of the day is counted as the tenth and the second one, a minute later, is
  rejected for the daily limit.
\<close>

theorem expired_window_below_cap_increments:
  "172800000000 - tap_timestamp ((inserted_row 7 0 0)\<lparr>taps := 3\<rparr>) > one_day \<and>
   handle_tap [(inserted_row 7 0 0)\<lparr>taps := 3\<rparr>] 7 172800000000 =
     (Tapped 100000,
      [(inserted_row 7 0 0)\<lparr>taps := 4, tap_timestamp := 172800000000,
         token_balance := 100000\<rparr>]) \<and>
   tap_run [(inserted_row 7 0 0)\<lparr>taps := 9\<rparr>] 7 [259200000000, 259260000000] =
     ([Tapped 100000, TapRejected DailyLimitReached],
      [(inserted_row 7 0 0)\<lparr>taps := 10, tap_timestamp := 259200000000,
         token_balance := 100000\<rparr>])"
  by code_simp

section \<open>Binding a wallet\<close>

lemma wallet_duplicate_rejected:
  assumes "isAddress a" and "fetchone db uid = Some u"
    and "\<exists>r \<in> set db. user_id r \<noteq> uid \<and> wallet_address r = Some a"
  shows "handle_wallet_address isAddress db uid a = (DuplicateWallet, db)"
proof -
  from fetchone_Some [OF assms(2)] have "\<exists>r \<in> set db. user_id r = uid"
    by blast
  with assms(1,3) show ?thesis
    by (simp add: handle_wallet_address_def wallet_conflict_def)
qed

lemma wallet_bound_frame:
  assumes "handle_wallet_address isAddress db uid a = (WalletBound, db')"
  shows "length db' = length db \<and>
    (\<forall>i < length db.
       db' ! i = (if user_id (db ! i) = uid then (db ! i)\<lparr>wallet_address := Some a\<rparr>
                  else db ! i))"
  using assms
  by (auto simp: handle_wallet_address_def length_update_where nth_update_where
      split: if_splits)

text \<open>
  C7. For a user without an account the UPDATE of \<open>handle_wallet_address\<close> matches no
  row and raises nothing, so the handler answers "Wallet connected successfully!" and
  stores nothing, where \<open>handle_tap\<close> and \<open>view_dashboard\<close> answer that the user is not
  registered.
\<close>

theorem wallet_bound_without_account:
  "fetchone [] 7 = None \<and>
   handle_wallet_address (\<lambda>a. True) [] 7 ''0x52908400098527886E0F7030069857D2E4169EE7'' =
     (WalletBound, []) \<and>
   handle_tap [] 7 0 = (TapRejected NotRegistered, []) \<and>
   view_dashboard [] 7 = (DashboardNotRegistered, [])"
  by (simp add: fetchone_def handle_wallet_address_def wallet_conflict_def update_where_def
      handle_tap_def tap_after_select_def view_dashboard_def)

section \<open>Two taps at the cap\<close>

text \<open>
  Handled one after the other, as the dispatcher calls the handlers, of two taps of an
  account with \<open>taps = MAX_TAPS_PER_DAY - 1\<close> the first succeeds and the second is
  rejected unless it comes more than a day after the first.
\<close>

lemma serial_taps_at_the_cap:
  assumes "fetchone db uid = Some u"
    and "taps u = MAX_TAPS_PER_DAY - 1"
    and "t2 - t1 \<le> one_day"
  shows "fst (tap_run db uid [t1, t2]) =
    [Tapped (new_tokens u), TapRejected DailyLimitReached]"
proof -
  from assms(2) have el: "eligible u t1"
    by (simp add: eligible_def)
  obtain db1 where t: "handle_tap db uid t1 = (Tapped (new_tokens u), db1)"
    using handle_tap_eligible [OF assms(1) el] by simp
  from tapped_own_row [OF assms(1) t] obtain v where
    v: "fetchone db1 uid = Some v" "tap_timestamp v = t1"
    by blast
  from tap_counter_rule [OF assms(1) t] v(1) assms(2) have "taps v = MAX_TAPS_PER_DAY"
    by auto
  with v(2) assms(3) have "\<not> eligible v t2"
    by (simp add: eligible_def)
  from handle_tap_ineligible [OF v(1) this] t show ?thesis
    by simp
qed

text \<open>A thread that takes its two steps with no other step in between is the handler.\<close>

lemma one_thread_is_handle_tap:
  "interleave db [Waiting uid now] [0, 0] =
     (snd (handle_tap db uid now), [Finished (fst (handle_tap db uid now))])"
  by (simp add: handle_tap_def split: prod.splits)

text \<open>
  The answer of a thread follows the row it selected, whatever has been committed since:
  when both threads select before either goes on, both answer with the reward.
\<close>

lemma reply_follows_the_selected_row:
  "eligible u now \<Longrightarrow> fst (tap_after_select db uid now (Some u)) = Tapped (new_tokens u)"
  by (simp add: tap_after_select_def Let_def split: option.splits)

lemma overlapped_taps_both_answer_tapped:
  assumes "fetchone db uid = Some u" and "taps u = MAX_TAPS_PER_DAY - 1"
  shows "snd (interleave db [Waiting uid t1, Waiting uid t2] [0, 1, 0, 1]) =
    [Finished (Tapped (new_tokens u)), Finished (Tapped (new_tokens u))]"
proof -
  from assms(2) have el: "eligible u t" for t
    by (simp add: eligible_def)
  obtain c1 where one: "tap_after_select db uid t1 (Some u) = (Tapped (new_tokens u), c1)"
    using reply_follows_the_selected_row [OF el, of db uid t1]
    by (cases "tap_after_select db uid t1 (Some u)") simp
  obtain c2 where two: "tap_after_select (last (db # c1)) uid t2 (Some u) =
      (Tapped (new_tokens u), c2)"
    using reply_follows_the_selected_row [OF el, of "last (db # c1)" uid t2]
    by (cases "tap_after_select (last (db # c1)) uid t2 (Some u)") simp
  show ?thesis
    by (simp add: assms(1) one two del: last.simps)
qed


end
